theory Spec2Isabelle
  imports Main "HOL-Library.AList"
begin

section \<open>Python values, dictionaries and errors\<close>

text \<open>
  The scraper keeps every extracted datum as a Python \<^verbatim>\<open>str\<close>, an \<^verbatim>\<open>int\<close>
  (the rank, in the asynchronous variant only) or \<^verbatim>\<open>None\<close>.
\<close>

datatype pyval = PyNone | PyInt int | PyStr string

text \<open>
  \<^verbatim>\<open>coin_info\<close> is a \<^verbatim>\<open>dict\<close> from \<^verbatim>\<open>str\<close> to such values. It is kept as an
  association list in insertion order: \<^verbatim>\<open>d[k] = v\<close> overwrites in place or appends,
  \<^verbatim>\<open>d.get(k)\<close> yields \<^verbatim>\<open>None\<close> for a missing key, and \<^verbatim>\<open>if d:\<close> tests for
  at least one entry.
\<close>

type_synonym pydict = "(string \<times> pyval) list"

definition dict_set :: "pydict \<Rightarrow> string \<Rightarrow> pyval \<Rightarrow> pydict" where
  "dict_set d k v = AList.update k v d"

definition dict_get :: "pydict \<Rightarrow> string \<Rightarrow> pyval" where
  "dict_get d k = (case map_of d k of None \<Rightarrow> PyNone | Some v \<Rightarrow> v)"

text \<open>An attribute read \<^verbatim>\<open>tag.get('src')\<close>: the attribute's text, or \<^verbatim>\<open>None\<close>.\<close>

definition attr_val :: "string option \<Rightarrow> pyval" where
  "attr_val a = (case a of None \<Rightarrow> PyNone | Some s \<Rightarrow> PyStr s)"

datatype error = ValueError | IndexError | NavigationError | StorageError

datatype log_entry =
    LogCellError error
  | LogPageError error
  | LogInserted pyval
  | LogNoCoins

section \<open>The scroll loop\<close>

text \<open>
  \<^verbatim>\<open>
  count, max_count = 0, 20          # 10 in the synchronous variant
  while count < max_count:
      old_height = page.evaluate("document.body.scrollHeight")
      ...ten ArrowDown presses, wait 500 ms...
      new_height = page.evaluate("document.body.scrollHeight")
      if old_height == new_height:
          count += 1
      else:
          count = 0
  \<close>
  The browser is the environment: \<open>heights i\<close> is the pair of heights that the
  two \<^verbatim>\<open>evaluate\<close> calls of iteration \<open>i\<close> return. The loop may run forever, so its
  model is a partial function; its value is the number of iterations it has run.
\<close>

partial_function (option) scroll_loop ::
  "nat \<Rightarrow> (nat \<Rightarrow> int \<times> int) \<Rightarrow> nat \<Rightarrow> nat \<Rightarrow> nat option" where
  "scroll_loop max_count heights i count =
     (if count < max_count then
        (case heights i of (old_height, new_height) \<Rightarrow>
           if old_height = new_height
           then scroll_loop max_count heights (i + 1) (count + 1)
           else scroll_loop max_count heights (i + 1) 0)
      else Some i)"

definition scroll_async :: "(nat \<Rightarrow> int \<times> int) \<Rightarrow> nat option" where
  "scroll_async heights = scroll_loop 20 heights 0 0"

definition scroll_sync :: "(nat \<Rightarrow> int \<times> int) \<Rightarrow> nat option" where
  "scroll_sync heights = scroll_loop 10 heights 0 0"

text \<open>
  The value of \<^verbatim>\<open>count\<close> at the head of iteration \<open>n\<close>, were the loop never to
  stop: the body of the loop without its guard.
\<close>

fun stall_count :: "(nat \<Rightarrow> int \<times> int) \<Rightarrow> nat \<Rightarrow> nat" where
  "stall_count heights 0 = 0"
| "stall_count heights (Suc n) =
     (case heights n of (old_height, new_height) \<Rightarrow>
        if old_height = new_height then stall_count heights n + 1 else 0)"

text \<open>
  The counter as the specification words it: reset to zero whenever the height
  increases, incremented otherwise.
\<close>

fun spec_stall_count :: "(nat \<Rightarrow> int \<times> int) \<Rightarrow> nat \<Rightarrow> nat" where
  "spec_stall_count heights 0 = 0"
| "spec_stall_count heights (Suc n) =
     (case heights n of (old_height, new_height) \<Rightarrow>
        if old_height < new_height then 0 else spec_stall_count heights n + 1)"

text \<open>
  A sequence of heights observed one after the other, as the specification lists
  them: iteration \<open>i\<close> compares the \<open>i\<close>-th observation with the next one.
\<close>

definition consecutive :: "int list \<Rightarrow> nat \<Rightarrow> int \<times> int" where
  "consecutive hs i = (hs ! i, hs ! (i + 1))"

section \<open>The conversion of the rank text\<close>

text \<open>
  The asynchronous variant passes the text of the rank cell to Python's built-in
  \<^verbatim>\<open>int\<close>. On ASCII text \<^verbatim>\<open>int(s)\<close> drops surrounding white space, reads an
  optional sign and then decimal digits, single underscores being allowed between
  two digits, and raises \<^verbatim>\<open>ValueError\<close> on anything else. \<open>py_int\<close> is that
  function, with \<open>None\<close> for the exception (the interpreter's configurable
  limit on the number of digits is left out).
\<close>

definition is_space :: "char \<Rightarrow> bool" where
  "is_space c =
     (c \<in> set [CHR '' '', CHR 0x09, CHR 0x0A, CHR 0x0B, CHR 0x0C, CHR 0x0D,
                CHR 0x1C, CHR 0x1D, CHR 0x1E, CHR 0x1F])"

definition py_strip :: "string \<Rightarrow> string" where
  "py_strip s = rev (dropWhile is_space (rev (dropWhile is_space s)))"

definition digit_val :: "char \<Rightarrow> nat option" where
  "digit_val c =
     (let n = (of_char c :: nat) in if 48 \<le> n \<and> n \<le> 57 then Some (n - 48) else None)"

fun py_digits :: "nat \<Rightarrow> string \<Rightarrow> nat option" where
  "py_digits acc [] = Some acc"
| "py_digits acc [c] =
     (case digit_val c of None \<Rightarrow> None | Some d \<Rightarrow> Some (10 * acc + d))"
| "py_digits acc (c # c' # cs) =
     (if c = CHR ''_'' then
        (case digit_val c' of None \<Rightarrow> None | Some d \<Rightarrow> py_digits (10 * acc + d) cs)
      else
        (case digit_val c of None \<Rightarrow> None | Some d \<Rightarrow> py_digits (10 * acc + d) (c' # cs)))"

definition py_nat :: "string \<Rightarrow> nat option" where
  "py_nat s =
     (case s of
        [] \<Rightarrow> None
      | c # cs \<Rightarrow> (case digit_val c of None \<Rightarrow> None | Some d \<Rightarrow> py_digits d cs))"

definition py_int :: "string \<Rightarrow> int option" where
  "py_int s =
     (case py_strip s of
        [] \<Rightarrow> None
      | c # cs \<Rightarrow>
          if c = CHR ''-'' then map_option (\<lambda>n. - int n) (py_nat cs)
          else if c = CHR ''+'' then map_option int (py_nat cs)
          else map_option int (py_nat (c # cs)))"

section \<open>Rows of the rendered table\<close>

text \<open>
  What the selectors of the scraper see of one \<^verbatim>\<open>tr\<close> element. A selected element
  that is absent is \<open>None\<close>; BeautifulSoup tags are always truthy, so \<^verbatim>\<open>if rank:\<close>
  tests presence only. An image is given by its \<^verbatim>\<open>src\<close> attribute, itself optional.
  \<^item> \<open>rank_td\<close>: the stripped text of \<^verbatim>\<open>td[style*="start"]\<close>;
  \<^item> \<open>logo_img\<close>: \<^verbatim>\<open>img[class*="coin-logo"]\<close>;
  \<^item> \<open>name_p\<close>, \<open>symbol_p\<close>: the stripped texts of the two \<^verbatim>\<open>p\<close> elements;
  \<^item> \<open>cell_elements\<close>: the \<^verbatim>\<open>td[style*="end"]\<close> cells in document order, each
    with its text (\<^verbatim>\<open>cell_texts[idx]\<close>) and its first \<^verbatim>\<open>img\<close> descendant.
\<close>

record cell =
  cell_text :: string
  cell_img :: "string option option"

record row =
  rank_td :: "string option"
  logo_img :: "string option option"
  name_p :: "string option"
  symbol_p :: "string option"
  cell_elements :: "cell list"

type_synonym log = "log_entry list"

subsection \<open>The cell pairing loop\<close>

text \<open>
  The body of the \<^verbatim>\<open>try\<close> block for one index. \<^verbatim>\<open>headers[idx]\<close> raises
  \<^verbatim>\<open>IndexError\<close> when the row has more cells than the page has header labels; no
  other statement of the block can raise. \<open>idx\<close> ranges over the indices of the cells.
\<close>

definition cell_body :: "string list \<Rightarrow> cell list \<Rightarrow> nat \<Rightarrow> pydict \<Rightarrow> error + pydict" where
  "cell_body headers cells idx coin_info =
     (if idx < length headers then
        (let header = headers ! idx in
         if idx = length cells - 1 then
           (case cell_img (cells ! idx) of
              None \<Rightarrow> Inr coin_info
            | Some src \<Rightarrow> Inr (dict_set coin_info header (attr_val src)))
         else
           (let value = cell_text (cells ! idx) in
            if value \<noteq> [] then Inr (dict_set coin_info header (PyStr value))
            else Inr coin_info))
      else Inl IndexError)"

text \<open>\<^verbatim>\<open>try: ... except Exception as e: logging.error(...)\<close> around that body.\<close>

definition try_cell :: "string list \<Rightarrow> cell list \<Rightarrow> nat \<Rightarrow> pydict \<times> log \<Rightarrow> pydict \<times> log" where
  "try_cell headers cells idx st =
     (case cell_body headers cells idx (fst st) of
        Inl e \<Rightarrow> (fst st, snd st @ [LogCellError e])
      | Inr coin_info \<Rightarrow> (coin_info, snd st))"

fun cell_loop :: "string list \<Rightarrow> cell list \<Rightarrow> nat list \<Rightarrow> pydict \<times> log \<Rightarrow> pydict \<times> log" where
  "cell_loop headers cells [] st = st"
| "cell_loop headers cells (idx # idxs) st =
     cell_loop headers cells idxs (try_cell headers cells idx st)"

definition extract_cells :: "string list \<Rightarrow> cell list \<Rightarrow> pydict \<times> log \<Rightarrow> pydict \<times> log" where
  "extract_cells headers cells st =
     (if cells \<noteq> [] then cell_loop headers cells [0..<length cells] st else st)"

text \<open>
  What the cell at \<open>idx\<close> stores under its header label, if anything: the image
  reference for the last cell, the text, unless empty, for every other cell.
\<close>

definition cell_entry :: "cell list \<Rightarrow> nat \<Rightarrow> pyval option" where
  "cell_entry cells idx =
     (if idx = length cells - 1 then
        (case cell_img (cells ! idx) of None \<Rightarrow> None | Some src \<Rightarrow> Some (attr_val src))
      else if cell_text (cells ! idx) \<noteq> [] then Some (PyStr (cell_text (cells ! idx)))
      else None)"

text \<open>The log entries of one row: one for each cell beyond the header labels.\<close>

definition cell_errors :: "string list \<Rightarrow> row \<Rightarrow> log" where
  "cell_errors headers r =
     replicate (length (cell_elements r) - length headers) (LogCellError IndexError)"

subsection \<open>Rank, logo, name and symbol\<close>

definition set_logo_name_symbol :: "row \<Rightarrow> pydict \<Rightarrow> pydict" where
  "set_logo_name_symbol r coin_info =
     (let coin_info = (case logo_img r of None \<Rightarrow> coin_info
                       | Some src \<Rightarrow> dict_set coin_info ''logo'' (attr_val src));
          coin_info = (case name_p r of None \<Rightarrow> coin_info
                       | Some t \<Rightarrow> dict_set coin_info ''name'' (PyStr t));
          coin_info = (case symbol_p r of None \<Rightarrow> coin_info
                       | Some t \<Rightarrow> dict_set coin_info ''symbol'' (PyStr t))
      in coin_info)"

text \<open>Synchronous variant: \<^verbatim>\<open>coin_info['rank'] = rank.get_text(strip=True)\<close>.\<close>

definition set_rank_sync :: "row \<Rightarrow> pydict \<Rightarrow> pydict" where
  "set_rank_sync r coin_info =
     (case rank_td r of None \<Rightarrow> coin_info
      | Some t \<Rightarrow> dict_set coin_info ''rank'' (PyStr t))"

text \<open>
  Asynchronous variant: \<^verbatim>\<open>coin_info['rank'] = int(rank.get_text(strip=True))\<close>,
  outside the \<^verbatim>\<open>try\<close> block of the cells.
\<close>

definition set_rank_async :: "row \<Rightarrow> pydict \<Rightarrow> error + pydict" where
  "set_rank_async r coin_info =
     (case rank_td r of None \<Rightarrow> Inr coin_info
      | Some t \<Rightarrow>
          (case py_int t of None \<Rightarrow> Inl ValueError
           | Some n \<Rightarrow> Inr (dict_set coin_info ''rank'' (PyInt n))))"

definition extract_row_sync :: "string list \<Rightarrow> row \<Rightarrow> log \<Rightarrow> pydict \<times> log" where
  "extract_row_sync headers r lg =
     extract_cells headers (cell_elements r)
       (set_logo_name_symbol r (set_rank_sync r []), lg)"

definition extract_row_async :: "string list \<Rightarrow> row \<Rightarrow> log \<Rightarrow> error + pydict \<times> log" where
  "extract_row_async headers r lg =
     (case set_rank_async r [] of
        Inl e \<Rightarrow> Inl e
      | Inr coin_info \<Rightarrow>
          Inr (extract_cells headers (cell_elements r) (set_logo_name_symbol r coin_info, lg)))"

text \<open>The raw row of a row element, apart from the log.\<close>

definition raw_row_sync :: "string list \<Rightarrow> row \<Rightarrow> pydict" where
  "raw_row_sync headers r = fst (extract_row_sync headers r [])"

definition raw_row_async :: "string list \<Rightarrow> row \<Rightarrow> error + pydict" where
  "raw_row_async headers r =
     (case extract_row_async headers r [] of
        Inl e \<Rightarrow> Inl e
      | Inr (coin_info, lg) \<Rightarrow> Inr coin_info)"

text \<open>The rank cell is absent, or \<^verbatim>\<open>int\<close> accepts its text.\<close>

definition rank_converts :: "row \<Rightarrow> bool" where
  "rank_converts r = (case rank_td r of None \<Rightarrow> True | Some t \<Rightarrow> py_int t \<noteq> None)"

section \<open>Normalisation\<close>

record coin =
  rank :: pyval
  logo :: pyval
  name :: pyval
  symbol :: pyval
  price :: pyval
  change_1h :: pyval
  change_24h :: pyval
  change_7d :: pyval
  market_cap :: pyval
  volume_24h :: pyval
  circulating_supply :: pyval
  last_7d :: pyval

definition normalized_coin :: "pydict \<Rightarrow> coin" where
  "normalized_coin coin_info =
     \<lparr> rank = dict_get coin_info ''rank'',
       logo = dict_get coin_info ''logo'',
       name = dict_get coin_info ''name'',
       symbol = dict_get coin_info ''symbol'',
       price = dict_get coin_info ''Price'',
       change_1h = dict_get coin_info ''1h %'',
       change_24h = dict_get coin_info ''24h %'',
       change_7d = dict_get coin_info ''7d %'',
       market_cap = dict_get coin_info ''Market Cap'',
       volume_24h = dict_get coin_info ''Volume(24h)'',
       circulating_supply = dict_get coin_info ''Circulating Supply'',
       last_7d = dict_get coin_info ''Last 7 Days'' \<rparr>"

text \<open>
  The canonical fields that hold display strings, each with the column label that
  \<^verbatim>\<open>normalized_coin\<close> reads it from.
\<close>

definition string_fields :: "(string \<times> (coin \<Rightarrow> pyval)) list" where
  "string_fields =
     [(''Price'', price), (''1h %'', change_1h), (''24h %'', change_24h),
      (''7d %'', change_7d), (''Market Cap'', market_cap), (''Volume(24h)'', volume_24h),
      (''Circulating Supply'', circulating_supply)]"

definition null_or_nonempty :: "pyval \<Rightarrow> bool" where
  "null_or_nonempty v = (case v of PyNone \<Rightarrow> True | PyInt n \<Rightarrow> False | PyStr s \<Rightarrow> s \<noteq> [])"

text \<open>The header label that the last cell of a row is stored under, if it has one.\<close>

definition last_label :: "string list \<Rightarrow> row \<Rightarrow> string option" where
  "last_label headers r =
     (let n = length (cell_elements r)
      in if 0 < n \<and> n - 1 < length headers then Some (headers ! (n - 1)) else None)"

section \<open>The record sink\<close>

text \<open>
  The table \<^verbatim>\<open>coins\<close> as \<^verbatim>\<open>create_db\<close> declares it, in both variants: twelve
  columns and no \<^verbatim>\<open>PRIMARY KEY\<close> or \<^verbatim>\<open>UNIQUE\<close> constraint. \<open>coins_unique\<close> lists the
  columns that carry a uniqueness constraint.
\<close>

definition coins_unique :: "(coin \<Rightarrow> pyval) list" where
  "coins_unique = []"

text \<open>
  SQLite's \<^verbatim>\<open>INSERT OR REPLACE\<close>: the rows that would violate a uniqueness
  constraint together with the new row are deleted, then the new row is added.
  \<^verbatim>\<open>NULL\<close> never conflicts with anything.
\<close>

definition conflicts :: "(coin \<Rightarrow> pyval) list \<Rightarrow> coin \<Rightarrow> coin \<Rightarrow> bool" where
  "conflicts uniq new old = list_ex (\<lambda>col. col new \<noteq> PyNone \<and> col old = col new) uniq"

definition insert_or_replace :: "(coin \<Rightarrow> pyval) list \<Rightarrow> coin list \<Rightarrow> coin \<Rightarrow> coin list" where
  "insert_or_replace uniq table new = filter (\<lambda>old. \<not> conflicts uniq new old) table @ [new]"

text \<open>
  A connection sees the table with its own uncommitted changes (\<open>working\<close>); the
  database file holds the committed rows (\<open>durable\<close>). Closing a connection drops
  what it has not committed.
\<close>

record db =
  durable :: "coin list"
  working :: "coin list"

definition db_connect :: "coin list \<Rightarrow> db" where
  "db_connect file = \<lparr> durable = file, working = file \<rparr>"

definition db_commit :: "db \<Rightarrow> db" where
  "db_commit d = d\<lparr> durable := working d \<rparr>"

definition db_close :: "db \<Rightarrow> coin list" where
  "db_close d = durable d"

text \<open>
  \<^verbatim>\<open>db.execute\<close> can raise (a value the driver cannot bind, a locked or full
  database). Whether the storage engine takes a row is the environment's choice,
  the parameter \<open>accepts\<close>.
\<close>

definition db_execute :: "(coin \<Rightarrow> bool) \<Rightarrow> db \<Rightarrow> coin \<Rightarrow> error + db" where
  "db_execute accepts d c =
     (if accepts c then Inr (d\<lparr> working := insert_or_replace coins_unique (working d) c \<rparr>)
      else Inl StorageError)"

definition insert_coin :: "(coin \<Rightarrow> bool) \<Rightarrow> db \<Rightarrow> coin \<Rightarrow> error + db" where
  "insert_coin accepts d c =
     (case db_execute accepts d c of
        Inl e \<Rightarrow> Inl e
      | Inr d' \<Rightarrow> Inr (db_commit d'))"

section \<open>Scraping a rendered document\<close>

record document =
  doc_headers :: "string list"
  doc_rows :: "row list"

text \<open>
  Synchronous variant: the loop over the rows of \<^verbatim>\<open>coinmarketcap\<close>, which appends
  one normalised coin for every row whose \<^verbatim>\<open>coin_info\<close> is not empty.
\<close>

fun scrape_sync :: "string list \<Rightarrow> row list \<Rightarrow> coin list \<times> log \<Rightarrow> coin list \<times> log" where
  "scrape_sync headers [] st = st"
| "scrape_sync headers (r # rs) (coins, lg) =
     (case extract_row_sync headers r lg of
        (coin_info, lg') \<Rightarrow>
          scrape_sync headers rs
            (if coin_info \<noteq> [] then coins @ [normalized_coin coin_info] else coins, lg'))"

text \<open>
  Asynchronous variant: \<^verbatim>\<open>coinmarketcap\<close> is a generator, and the body of the
  \<^verbatim>\<open>async for\<close> that consumes it runs at each \<^verbatim>\<open>yield\<close>. \<open>consume\<close> is that body,
  acting on a state of its own and on the log. An exception of the row loop is
  caught by the generator's \<^verbatim>\<open>except Exception\<close>, which logs it and lets the
  generator finish; an exception of the consumer leaves the \<^verbatim>\<open>async for\<close>.
\<close>

fun generate_async ::
  "(coin \<Rightarrow> 's \<times> log \<Rightarrow> error + 's \<times> log) \<Rightarrow> string list \<Rightarrow> row list \<Rightarrow> 's \<times> log
     \<Rightarrow> error option \<times> 's \<times> log" where
  "generate_async consume headers [] st = (None, st)"
| "generate_async consume headers (r # rs) (s, lg) =
     (case extract_row_async headers r lg of
        Inl e \<Rightarrow> (None, s, lg @ [LogPageError e])
      | Inr (coin_info, lg') \<Rightarrow>
          if coin_info \<noteq> [] then
            (case consume (normalized_coin coin_info) (s, lg') of
               Inl e \<Rightarrow> (Some e, s, lg')
             | Inr st' \<Rightarrow> generate_async consume headers rs st')
          else generate_async consume headers rs (s, lg'))"

text \<open>The coins that the generator yields to a consumer that only collects them.\<close>

definition collect :: "coin \<Rightarrow> coin list \<times> log \<Rightarrow> error + coin list \<times> log" where
  "collect c st = Inr (fst st @ [c], snd st)"

definition scrape_async :: "string list \<Rightarrow> row list \<Rightarrow> coin list \<times> log" where
  "scrape_async headers rows = snd (generate_async collect headers rows ([], []))"

section \<open>Processing pages\<close>

text \<open>
  A target page, as the browser presents it: whether \<^verbatim>\<open>page.goto\<close> raises (a
  navigation failure or a timeout), the heights that the scroll loop reads, and the
  document that \<^verbatim>\<open>page.content()\<close> returns after a given number of scroll rounds.
\<close>

record page =
  goto_fails :: bool
  heights :: "nat \<Rightarrow> int \<times> int"
  content :: "nat \<Rightarrow> document"

text \<open>Navigation and scrolling, up to \<^verbatim>\<open>html_text = page.content()\<close>.
  \<open>None\<close>: the scroll loop never ends.\<close>

definition render :: "nat \<Rightarrow> page \<Rightarrow> (error + document) option" where
  "render max_count p =
     (if goto_fails p then Some (Inl NavigationError)
      else (case scroll_loop max_count (heights p) 0 0 of
              None \<Rightarrow> None
            | Some n \<Rightarrow> Some (Inr (content p n))))"

subsection \<open>Synchronous variant\<close>

definition coinmarketcap_sync :: "page \<Rightarrow> log \<Rightarrow> (error + coin list \<times> log) option" where
  "coinmarketcap_sync p lg =
     (case render 10 p of
        None \<Rightarrow> None
      | Some (Inl e) \<Rightarrow> Some (Inl e)
      | Some (Inr doc) \<Rightarrow> Some (Inr (scrape_sync (doc_headers doc) (doc_rows doc) ([], lg))))"

text \<open>The \<^verbatim>\<open>for coin in coins: insert_coin(db, coin)\<close> loop; the first exception ends it.\<close>

fun insert_all :: "(coin \<Rightarrow> bool) \<Rightarrow> db \<Rightarrow> coin list \<Rightarrow> error option \<times> db" where
  "insert_all accepts d [] = (None, d)"
| "insert_all accepts d (c # cs) =
     (case insert_coin accepts d c of
        Inl e \<Rightarrow> (Some e, d)
      | Inr d' \<Rightarrow> insert_all accepts d' cs)"

text \<open>
  \<^verbatim>\<open>process_page\<close> opens its own connection and closes it in a \<^verbatim>\<open>finally\<close>
  clause. The result is the exception that leaves the function, if any, the database
  file, and the log.
\<close>

definition process_page_sync ::
  "(coin \<Rightarrow> bool) \<Rightarrow> coin list \<Rightarrow> page \<Rightarrow> log \<Rightarrow> (error option \<times> coin list \<times> log) option" where
  "process_page_sync accepts file p lg =
     (let d = db_connect file in
      case coinmarketcap_sync p lg of
        None \<Rightarrow> None
      | Some (Inl e) \<Rightarrow> Some (Some e, db_close d, lg)
      | Some (Inr (coins, lg')) \<Rightarrow>
          if coins = [] then Some (None, db_close d, lg' @ [LogNoCoins])
          else (case insert_all accepts d coins of
                  (err, d') \<Rightarrow> Some (err, db_close d', lg')))"


subsection \<open>Asynchronous variant\<close>

text \<open>The body of the \<^verbatim>\<open>async for\<close> of \<^verbatim>\<open>process_page\<close>.\<close>

definition insert_yielded :: "(coin \<Rightarrow> bool) \<Rightarrow> coin \<Rightarrow> db \<times> log \<Rightarrow> error + db \<times> log" where
  "insert_yielded accepts c st =
     (case insert_coin accepts (fst st) c of
        Inl e \<Rightarrow> Inl e
      | Inr d' \<Rightarrow> Inr (d', snd st))"

definition process_page_async ::
  "(coin \<Rightarrow> bool) \<Rightarrow> db \<Rightarrow> page \<Rightarrow> log \<Rightarrow> (error option \<times> db \<times> log) option" where
  "process_page_async accepts d p lg =
     (case render 20 p of
        None \<Rightarrow> None
      | Some (Inl e) \<Rightarrow> Some (Some e, d, lg)
      | Some (Inr doc) \<Rightarrow>
          Some (generate_async (insert_yielded accepts) (doc_headers doc) (doc_rows doc) (d, lg)))"

subsection \<open>Concurrent batches\<close>

text \<open>
  \<^verbatim>\<open>main\<close> of the asynchronous variant runs the pages of a batch as tasks of one
  event loop and joins them with \<^verbatim>\<open>asyncio.gather(*tasks)\<close>. A task is a
  \<^verbatim>\<open>process_page\<close> coroutine; it gives way to the other tasks only where it awaits.
  Its states: before \<^verbatim>\<open>page.goto\<close> has returned; in the scroll loop, with the number
  of rounds run and the counter; in the row loop of the generator, with the header
  labels and the rows still to come; finished; ended by an exception.
\<close>

datatype task =
    Start page
  | Scroll page nat nat
  | Rows "string list" "row list"
  | Done
  | Failed error

text \<open>
  One step of a task: the navigation, one round of the scroll loop (or the exit
  from it with \<^verbatim>\<open>page.content()\<close>), or one row of the table with the insertion
  of its coin. Each is a stretch of \<^verbatim>\<open>process_page\<close> between two points where it
  awaits, or a part of such a stretch.
\<close>

fun task_step :: "(coin \<Rightarrow> bool) \<Rightarrow> task \<Rightarrow> db \<times> log \<Rightarrow> task \<times> db \<times> log" where
  "task_step accepts (Start p) st =
     (if goto_fails p then (Failed NavigationError, st) else (Scroll p 0 0, st))"
| "task_step accepts (Scroll p i count) st =
     (if count < 20 then
        (case heights p i of (old_height, new_height) \<Rightarrow>
           if old_height = new_height then (Scroll p (i + 1) (count + 1), st)
           else (Scroll p (i + 1) 0, st))
      else (Rows (doc_headers (content p i)) (doc_rows (content p i)), st))"
| "task_step accepts (Rows headers []) st = (Done, st)"
| "task_step accepts (Rows headers (r # rs)) st =
     (case extract_row_async headers r (snd st) of
        Inl e \<Rightarrow> (Done, fst st, snd st @ [LogPageError e])
      | Inr (coin_info, lg') \<Rightarrow>
          if coin_info \<noteq> [] then
            (case insert_yielded accepts (normalized_coin coin_info) (fst st, lg') of
               Inl e \<Rightarrow> (Failed e, fst st, lg')
             | Inr st' \<Rightarrow> (Rows headers rs, st'))
          else (Rows headers rs, fst st, lg'))"
| "task_step accepts Done st = (Done, st)"
| "task_step accepts (Failed e) st = (Failed e, st)"

fun run_task :: "(coin \<Rightarrow> bool) \<Rightarrow> nat \<Rightarrow> task \<Rightarrow> db \<times> log \<Rightarrow> task \<times> db \<times> log" where
  "run_task accepts 0 t st = (t, st)"
| "run_task accepts (Suc n) t st =
     (case task_step accepts t st of (t', st') \<Rightarrow> run_task accepts n t' st')"








section \<open>Test pages\<close>

text \<open>
  Inputs for the examples below: a row with a rank, a price and a chart image; a
  page that loads, keeps its height from the first scroll round on and shows the
  given rows under the labels Price and Last 7 Days; a page whose navigation fails.
\<close>

definition coin_row :: "string \<Rightarrow> string \<Rightarrow> row" where
  "coin_row rk pr =
     \<lparr> rank_td = Some rk, logo_img = None, name_p = None, symbol_p = None,
       cell_elements = [\<lparr> cell_text = pr, cell_img = None \<rparr>,
                        \<lparr> cell_text = [], cell_img = Some (Some ''chart.svg'') \<rparr>] \<rparr>"

definition stable_page :: "row list \<Rightarrow> page" where
  "stable_page rows =
     \<lparr> goto_fails = False, heights = (\<lambda>i. (1000, 1000)),
       content = (\<lambda>n. \<lparr> doc_headers = [''Price'', ''Last 7 Days''], doc_rows = rows \<rparr>) \<rparr>"


section \<open>Dictionaries\<close>

lemma map_of_dict_set: "map_of (dict_set d k v) = (map_of d)(k \<mapsto> v)"
  by (simp add: dict_set_def update_conv')

lemma dict_get_dict_set: "dict_get (dict_set d k v) k' = (if k' = k then v else dict_get d k')"
  by (simp add: dict_get_def map_of_dict_set)

lemma dict_get_absent: "map_of d k = None \<Longrightarrow> dict_get d k = PyNone"
  by (simp add: dict_get_def)

section \<open>The field normaliser\<close>

text \<open>
  Claim C5. The normaliser is a total function from raw rows to coins (it has no
  failure value), and every canonical field whose column label is not a key of the
  raw row is \<^verbatim>\<open>None\<close> in the coin it produces.
\<close>

theorem normalized_coin_absent_null:
  "(map_of raw ''rank'' = None \<longrightarrow> rank (normalized_coin raw) = PyNone) \<and>
   (map_of raw ''logo'' = None \<longrightarrow> logo (normalized_coin raw) = PyNone) \<and>
   (map_of raw ''name'' = None \<longrightarrow> name (normalized_coin raw) = PyNone) \<and>
   (map_of raw ''symbol'' = None \<longrightarrow> symbol (normalized_coin raw) = PyNone) \<and>
   (map_of raw ''Price'' = None \<longrightarrow> price (normalized_coin raw) = PyNone) \<and>
   (map_of raw ''1h %'' = None \<longrightarrow> change_1h (normalized_coin raw) = PyNone) \<and>
   (map_of raw ''24h %'' = None \<longrightarrow> change_24h (normalized_coin raw) = PyNone) \<and>
   (map_of raw ''7d %'' = None \<longrightarrow> change_7d (normalized_coin raw) = PyNone) \<and>
   (map_of raw ''Market Cap'' = None \<longrightarrow> market_cap (normalized_coin raw) = PyNone) \<and>
   (map_of raw ''Volume(24h)'' = None \<longrightarrow> volume_24h (normalized_coin raw) = PyNone) \<and>
   (map_of raw ''Circulating Supply'' = None \<longrightarrow>
      circulating_supply (normalized_coin raw) = PyNone) \<and>
   (map_of raw ''Last 7 Days'' = None \<longrightarrow> last_7d (normalized_coin raw) = PyNone)"
  by (simp add: normalized_coin_def dict_get_absent)

theorem normalized_coin_absent_null_witness:
  "normalized_coin [(''Dominance'', PyStr ''57%'')] =
     \<lparr> rank = PyNone, logo = PyNone, name = PyNone, symbol = PyNone, price = PyNone,
       change_1h = PyNone, change_24h = PyNone, change_7d = PyNone, market_cap = PyNone,
       volume_24h = PyNone, circulating_supply = PyNone, last_7d = PyNone \<rparr>"
  using normalized_coin_absent_null [of "[(''Dominance'', PyStr ''57%'')]"]
  by simp

section \<open>The record sink\<close>

lemma conflicts_none: "conflicts coins_unique new old = False"
  by (simp add: conflicts_def coins_unique_def)

lemma insert_or_replace_appends: "insert_or_replace coins_unique table new = table @ [new]"
  by (simp add: insert_or_replace_def conflicts_none)

lemma insert_coin_eq:
  "insert_coin accepts d c =
     (if accepts c then Inr \<lparr> durable = working d @ [c], working = working d @ [c] \<rparr>
      else Inl StorageError)"
  by (simp add: insert_coin_def db_execute_def db_commit_def insert_or_replace_appends)

text \<open>
  Claim C1. Two coins of rank 1 with different prices are inserted into an empty
  table, one after the other. The table has no uniqueness constraint on the rank, so
  \<^verbatim>\<open>INSERT OR REPLACE\<close> finds no conflict: both rows are stored, the older price
  along with the newer one.
\<close>

theorem insert_coin_same_rank_keeps_both:
  "map price
     (filter (\<lambda>r. rank r = PyInt 1)
        (durable (snd (insert_all (\<lambda>c. True) (db_connect [])
           [normalized_coin [(''rank'', PyInt 1), (''Price'', PyStr ''$1.00'')],
            normalized_coin [(''rank'', PyInt 1), (''Price'', PyStr ''$2.00'')]])))) =
   [PyStr ''$1.00'', PyStr ''$2.00'']"
  by (simp add: insert_coin_eq db_connect_def normalized_coin_def dict_get_def)

section \<open>The scroll loop\<close>


lemma stall_count_Suc:
  "stall_count h (Suc n) = (if fst (h n) = snd (h n) then stall_count h n + 1 else 0)"
  by (cases "h n") simp

declare stall_count.simps(2) [simp del]

lemma scroll_loop_step:
  "count < T \<Longrightarrow>
   scroll_loop T h i count =
     scroll_loop T h (Suc i) (if fst (h i) = snd (h i) then count + 1 else 0)"
  by (subst scroll_loop.simps) (cases "h i", simp)

lemma scroll_loop_exit: "\<not> count < T \<Longrightarrow> scroll_loop T h i count = Some i"
  by (subst scroll_loop.simps) simp

lemma scroll_loop_stops:
  "T \<le> stall_count h (i + k) \<Longrightarrow> \<forall>m<k. stall_count h (i + m) < T \<Longrightarrow>
   scroll_loop T h i (stall_count h i) = Some (i + k)"
proof (induction k arbitrary: i)
  case 0
  then show ?case by (simp add: scroll_loop_exit)
next
  case (Suc k)
  from Suc.prems(2) have lt: "stall_count h i < T"
    by (metis add.right_neutral zero_less_Suc)
  have a: "T \<le> stall_count h (Suc i + k)"
    using Suc.prems(1) by simp
  have b: "\<forall>m<k. stall_count h (Suc i + m) < T"
  proof (intro allI impI)
    fix m assume "m < k"
    then have "Suc m < Suc k" by simp
    with Suc.prems(2) have "stall_count h (i + Suc m) < T" by blast
    then show "stall_count h (Suc i + m) < T" by simp
  qed
  have "scroll_loop T h (Suc i) (stall_count h (Suc i)) = Some (Suc i + k)"
    using Suc.IH [OF a b] .
  then show ?case
    using lt by (simp add: scroll_loop_step stall_count_Suc)
qed

lemma scroll_loop_runs:
  assumes "scroll_loop T h i c = Some n"
  shows "c = stall_count h i \<longrightarrow>
         i \<le> n \<and> T \<le> stall_count h n \<and> (\<forall>m. i \<le> m \<and> m < n \<longrightarrow> stall_count h m < T)"
proof (induction rule: scroll_loop.raw_induct [OF _ assms])
  case (1 f T h i c n)
  show ?case
  proof
    assume c: "c = stall_count h i"
    show "i \<le> n \<and> T \<le> stall_count h n \<and> (\<forall>m. i \<le> m \<and> m < n \<longrightarrow> stall_count h m < T)"
    proof (cases "c < T")
      case False
      with 1(2) have "n = i" by simp
      with False c show ?thesis by simp
    next
      case True
      obtain a b where hi: "h i = (a, b)" by (cases "h i")
      from True 1(2) c hi have "f T h (Suc i) (stall_count h (Suc i)) = Some n"
        by (simp add: stall_count_Suc split: if_splits)
      from 1(1) [OF this]
      have r: "Suc i \<le> n \<and> T \<le> stall_count h n \<and>
               (\<forall>m. Suc i \<le> m \<and> m < n \<longrightarrow> stall_count h m < T)"
        by blast
      have "\<forall>m. i \<le> m \<and> m < n \<longrightarrow> stall_count h m < T"
      proof (intro allI impI)
        fix m assume m: "i \<le> m \<and> m < n"
        show "stall_count h m < T"
        proof (cases "m = i")
          case True
          then show ?thesis using \<open>c < T\<close> c by simp
        next
          case False
          with m r show ?thesis by simp
        qed
      qed
      with r show ?thesis by simp
    qed
  qed
qed

lemma stall_count_le_Suc: "stall_count h (Suc n) \<le> stall_count h n + 1"
  by (simp add: stall_count_Suc)

lemma scroll_loop_iff:
  "scroll_loop T h 0 0 = Some n \<longleftrightarrow>
     stall_count h n = T \<and> (\<forall>m<n. stall_count h m < T)"
proof
  assume "scroll_loop T h 0 0 = Some n"
  from scroll_loop_runs [OF this]
  have ge: "T \<le> stall_count h n" and lt: "\<forall>m<n. stall_count h m < T"
    by simp_all
  have "stall_count h n \<le> T"
  proof (cases n)
    case 0
    then show ?thesis by simp
  next
    case (Suc m)
    with lt have "stall_count h m < T" by simp
    with stall_count_le_Suc [of h m] Suc show ?thesis by simp
  qed
  with ge lt show "stall_count h n = T \<and> (\<forall>m<n. stall_count h m < T)" by simp
next
  assume a: "stall_count h n = T \<and> (\<forall>m<n. stall_count h m < T)"
  then have "scroll_loop T h 0 (stall_count h 0) = Some (0 + n)"
    by (intro scroll_loop_stops) simp_all
  then show "scroll_loop T h 0 0 = Some n" by simp
qed

lemma stall_count_window:
  "j < stall_count h n \<Longrightarrow> j < n \<and> fst (h (n - 1 - j)) = snd (h (n - 1 - j))"
proof (induction n arbitrary: j)
  case 0
  then show ?case by simp
next
  case (Suc n)
  show ?case
  proof (cases "fst (h n) = snd (h n)")
    case False
    with Suc.prems show ?thesis by (simp add: stall_count_Suc)
  next
    case True
    show ?thesis
    proof (cases j)
      case 0
      with True show ?thesis by simp
    next
      case (Suc j')
      with True Suc.prems have "j' < stall_count h n" by (simp add: stall_count_Suc)
      from Suc.IH [OF this] Suc show ?thesis by simp
    qed
  qed
qed

lemma stall_count_run:
  "\<forall>j<c. fst (h (k + j)) = snd (h (k + j)) \<Longrightarrow> c \<le> stall_count h (k + c)"
proof (induction c)
  case 0
  then show ?case by simp
next
  case (Suc c)
  then have "c \<le> stall_count h (k + c)" by simp
  moreover from Suc.prems have "fst (h (k + c)) = snd (h (k + c))" by simp
  ultimately show ?case by (simp add: stall_count_Suc)
qed

lemma scroll_loop_terminates:
  assumes "T \<le> stall_count h N"
  shows "\<exists>n\<le>N. scroll_loop T h 0 0 = Some n"
proof -
  define n where "n = (LEAST n. T \<le> stall_count h n)"
  have 1: "T \<le> stall_count h n"
    unfolding n_def using assms by (rule LeastI)
  have 2: "n \<le> N"
    unfolding n_def using assms by (rule Least_le)
  have 3: "\<forall>m<n. stall_count h m < T"
  proof (intro allI impI)
    fix m assume "m < n"
    then have "\<not> T \<le> stall_count h m"
      unfolding n_def by (rule not_less_Least)
    then show "stall_count h m < T" by simp
  qed
  have "scroll_loop T h 0 (stall_count h 0) = Some (0 + n)"
    using 1 3 by (intro scroll_loop_stops) simp_all
  with 2 show ?thesis by auto
qed

lemma scroll_loop_never:
  assumes "\<forall>k. \<exists>j<T. fst (h (k + j)) \<noteq> snd (h (k + j))"
  shows "scroll_loop T h 0 0 = None"
proof (rule ccontr)
  assume "scroll_loop T h 0 0 \<noteq> None"
  then obtain n where "scroll_loop T h 0 0 = Some n" by auto
  from scroll_loop_runs [OF this] have ge: "T \<le> stall_count h n" by simp
  from assms obtain j0 where "j0 < T" by blast
  then have "0 < T" by simp
  have all: "\<forall>j<T. j < n \<and> fst (h (n - 1 - j)) = snd (h (n - 1 - j))"
    using ge stall_count_window [of _ h n] by (meson less_le_trans)
  then have Tn: "T \<le> n" using \<open>0 < T\<close>
    by (metis Suc_leI Suc_pred diff_less zero_less_Suc)
  from assms obtain j where j: "j < T" "fst (h ((n - T) + j)) \<noteq> snd (h ((n - T) + j))"
    by blast
  have "T - 1 - j < T" using j(1) by simp
  with all have "fst (h (n - 1 - (T - 1 - j))) = snd (h (n - 1 - (T - 1 - j)))" by blast
  moreover have "n - 1 - (T - 1 - j) = (n - T) + j" using Tn j(1) by simp
  ultimately show False using j(2) by simp
qed

text \<open>
  Claim C2, as the specification words it, fails where the page shrinks. With a
  threshold of 2 and the heights 100, 90, 90, 90 the counter of the specification
  (a decrease is not an increase, so it counts) is 2 after two rounds; the loop
  resets its counter on the decrease and stops after three rounds only.
\<close>

theorem scroll_loop_resets_on_decrease:
  "spec_stall_count (consecutive [100, 90, 90, 90]) 2 = 2 \<and>
   stall_count (consecutive [100, 90, 90, 90]) 2 = 1 \<and>
   scroll_loop 2 (consecutive [100, 90, 90, 90]) 0 0 = Some 3"
  by (simp add: scroll_loop.simps consecutive_def numeral_2_eq_2 stall_count_Suc)

text \<open>
  Claim C2, amended. The counter is incremented when the two heights of a round are
  equal and reset to zero when they differ, whether the page grew or shrank. The
  loop stops after \<open>n\<close> rounds exactly when the counter then reaches the threshold
  for the first time; so it stops at the latest when threshold-many rounds in a row
  have seen no change. For the heights 100, 150, 150, 150, 150 and threshold 3 it
  stops after the fourth round, the third one without change.
\<close>

theorem scroll_loop_stops_at_threshold:
  "stall_count h (Suc i) = (if fst (h i) = snd (h i) then stall_count h i + 1 else 0) \<and>
   (scroll_loop T h 0 0 = Some n \<longleftrightarrow>
      stall_count h n = T \<and> (\<forall>m<n. stall_count h m < T)) \<and>
   ((\<forall>j<T. fst (h (k + j)) = snd (h (k + j))) \<longrightarrow>
      (\<exists>n\<le>k + T. scroll_loop T h 0 0 = Some n)) \<and>
   scroll_loop 3 (consecutive [100, 150, 150, 150, 150]) 0 0 = Some 4"
proof (intro conjI impI)
  show "stall_count h (Suc i) = (if fst (h i) = snd (h i) then stall_count h i + 1 else 0)"
    by (rule stall_count_Suc)
  show "scroll_loop T h 0 0 = Some n \<longleftrightarrow>
          stall_count h n = T \<and> (\<forall>m<n. stall_count h m < T)"
    by (rule scroll_loop_iff)
  show "scroll_loop 3 (consecutive [100, 150, 150, 150, 150]) 0 0 = Some 4"
    by (simp add: scroll_loop.simps consecutive_def)
next
  assume "\<forall>j<T. fst (h (k + j)) = snd (h (k + j))"
  then have "T \<le> stall_count h (k + T)"
    by (rule stall_count_run)
  then show "\<exists>n\<le>k + T. scroll_loop T h 0 0 = Some n"
    by (rule scroll_loop_terminates)
qed

theorem scroll_loop_stops_at_threshold_witness:
  "stall_count (consecutive [100, 150, 150, 150, 150]) 1 = 0 \<and>
   stall_count (consecutive [100, 150, 150, 150, 150]) 2 = 1 \<and>
   stall_count (consecutive [100, 150, 150, 150, 150]) 3 = 2 \<and>
   stall_count (consecutive [100, 150, 150, 150, 150]) 4 = 3 \<and>
   scroll_loop 3 (consecutive [100, 150, 150, 150, 150]) 0 0 = Some 4"
proof -
  let ?h = "consecutive [100, 150, 150, 150, 150]"
  have run: "\<forall>j<3. fst (?h (1 + j)) = snd (?h (1 + j))"
    by (simp add: consecutive_def numeral_3_eq_3 less_Suc_eq)
  note t = scroll_loop_stops_at_threshold [of ?h _ 3 4 1]
  from t have stop: "scroll_loop 3 ?h 0 0 = Some 4"
    by blast
  with t have 4: "stall_count ?h 4 = 3"
    by blast
  have 0: "stall_count ?h 0 = 0"
    by simp
  from t [of 0] 0 have 1: "stall_count ?h 1 = 0"
    by (simp add: consecutive_def)
  from t [of 1] 1 have 2: "stall_count ?h 2 = 1"
    by (simp add: consecutive_def numeral_2_eq_2)
  from t [of 2] 2 have 3: "stall_count ?h 3 = 2"
    by (simp add: consecutive_def numeral_2_eq_2 numeral_3_eq_3)
  from run t have "\<exists>n\<le>1 + 3. scroll_loop 3 ?h 0 0 = Some n"
    by blast
  with 1 2 3 4 stop show ?thesis
    by simp
qed

text \<open>
  Claim C7. The loop has no bound on the number of its rounds: on a page where
  every window of threshold-many rounds contains a round that changes the height, it
  never returns. A page that grows at every round is such a page, for the threshold
  of either variant.
\<close>

theorem scroll_loop_unbounded:
  "(\<forall>k. \<exists>j<T. fst (h (k + j)) \<noteq> snd (h (k + j))) \<Longrightarrow> scroll_loop T h 0 0 = None"
  by (rule scroll_loop_never)

theorem scroll_loop_unbounded_witness:
  "(\<forall>k. \<exists>j<20. fst (int (k + j), int (k + j) + 1) \<noteq> snd (int (k + j), int (k + j) + 1)) \<and>
   scroll_async (\<lambda>i. (int i, int i + 1)) = None \<and>
   scroll_sync (\<lambda>i. (int i, int i + 1)) = None"
proof -
  have a: "\<forall>k. \<exists>j<20. fst (int (k + j), int (k + j) + 1) \<noteq> snd (int (k + j), int (k + j) + 1)"
    by (intro allI exI [of _ 0]) simp
  have b: "\<forall>k. \<exists>j<10. fst (int (k + j), int (k + j) + 1) \<noteq> snd (int (k + j), int (k + j) + 1)"
    by (intro allI exI [of _ 0]) simp
  show ?thesis
    using a scroll_loop_unbounded [of 20 "\<lambda>i. (int i, int i + 1)", OF a]
      scroll_loop_unbounded [of 10 "\<lambda>i. (int i, int i + 1)", OF b]
    by (simp add: scroll_async_def scroll_sync_def)
qed

section \<open>The row extractor\<close>

lemma cell_body_eq:
  "cell_body hs cs idx ci =
     (if idx < length hs then
        Inr (case cell_entry cs idx of None \<Rightarrow> ci | Some v \<Rightarrow> dict_set ci (hs ! idx) v)
      else Inl IndexError)"
  by (simp add: cell_body_def cell_entry_def Let_def split: option.splits)

lemma try_cell_eq:
  "try_cell hs cs idx (ci, lg) =
     (if idx < length hs then
        (case cell_entry cs idx of None \<Rightarrow> ci | Some v \<Rightarrow> dict_set ci (hs ! idx) v, lg)
      else (ci, lg @ [LogCellError IndexError]))"
  by (simp add: try_cell_def cell_body_eq)

lemma cell_loop_append:
  "cell_loop hs cs (xs @ ys) st = cell_loop hs cs ys (cell_loop hs cs xs st)"
  by (induction xs arbitrary: st) simp_all

lemma cell_loop_log:
  "cell_loop hs cs idxs (ci, lg) =
     (fst (cell_loop hs cs idxs (ci, [])),
      lg @ replicate (length (filter (\<lambda>i. length hs \<le> i) idxs)) (LogCellError IndexError))"
proof (induction idxs arbitrary: ci lg)
  case Nil
  show ?case by simp
next
  case (Cons idx idxs)
  show ?case
  proof (cases "idx < length hs")
    case True
    then show ?thesis
      using Cons.IH [of _ lg] by (simp add: try_cell_eq)
  next
    case False
    then show ?thesis
      using Cons.IH [of ci "lg @ [LogCellError IndexError]"]
        Cons.IH [of ci "[LogCellError IndexError]"]
      by (simp add: try_cell_eq replicate_app_Cons_same)
  qed
qed

lemma count_beyond: "length (filter (\<lambda>i. m \<le> i) [0..<n]) = n - m"
  by (induction n) (auto simp: Suc_diff_le)

lemma extract_cells_log:
  "extract_cells hs cs (ci, lg) =
     (fst (extract_cells hs cs (ci, [])),
      lg @ replicate (length cs - length hs) (LogCellError IndexError))"
proof (cases "cs = []")
  case True
  then show ?thesis by (simp add: extract_cells_def)
next
  case False
  then show ?thesis
    using cell_loop_log [of hs cs "[0..<length cs]" ci lg]
    by (simp add: extract_cells_def count_beyond)
qed

lemma map_of_try_cell:
  "map_of (fst (try_cell hs cs idx st)) k =
     (if idx < length hs \<and> hs ! idx = k then
        (case cell_entry cs idx of None \<Rightarrow> map_of (fst st) k | Some v \<Rightarrow> Some v)
      else map_of (fst st) k)"
  by (cases st) (simp add: try_cell_eq map_of_dict_set split: option.splits)

lemma map_of_cell_loop_other:
  "\<forall>i\<in>set idxs. i < length hs \<longrightarrow> hs ! i \<noteq> k \<Longrightarrow>
   map_of (fst (cell_loop hs cs idxs st)) k = map_of (fst st) k"
  by (induction idxs arbitrary: st) (auto simp: map_of_try_cell)

lemma map_of_cell_loop_at:
  assumes "idx < n" "idx < length hs" "distinct (take n hs)"
  shows "map_of (fst (cell_loop hs cs [0..<n] st)) (hs ! idx) =
     (case cell_entry cs idx of None \<Rightarrow> map_of (fst st) (hs ! idx) | Some v \<Rightarrow> Some v)"
proof -
  have other: "hs ! i \<noteq> hs ! idx" if "i < n" "i < length hs" "i \<noteq> idx" for i
  proof -
    have "i < length (take n hs)" "idx < length (take n hs)"
      using assms that by simp_all
    from nth_eq_iff_index_eq [OF assms(3) this] that(3)
    have "take n hs ! i \<noteq> take n hs ! idx"
      by blast
    then show ?thesis using assms that by simp
  qed
  have split: "[0..<n] = [0..<idx] @ idx # [Suc idx..<n]"
  proof -
    have "[0..<n] = [0..<idx] @ [idx..<n]"
      using assms(1) upt_add_eq_append [of 0 idx "n - idx"] by simp
    also have "[idx..<n] = idx # [Suc idx..<n]"
      using assms(1) by (rule upt_conv_Cons)
    finally show ?thesis .
  qed
  have before: "\<forall>i\<in>set [0..<idx]. i < length hs \<longrightarrow> hs ! i \<noteq> hs ! idx"
    using other assms(1) by auto
  have after: "\<forall>i\<in>set [Suc idx..<n]. i < length hs \<longrightarrow> hs ! i \<noteq> hs ! idx"
    using other by auto
  show ?thesis
    unfolding split cell_loop_append
    by (simp add: map_of_cell_loop_other [OF after] map_of_cell_loop_other [OF before]
        map_of_try_cell assms(2) split: option.splits)
qed


lemma extract_cells_at:
  assumes "idx < length cs" "idx < length hs" "distinct (take (length cs) hs)"
  shows "map_of (fst (extract_cells hs cs st)) (hs ! idx) =
     (case cell_entry cs idx of None \<Rightarrow> map_of (fst st) (hs ! idx) | Some v \<Rightarrow> Some v)"
proof -
  from assms(1) have "cs \<noteq> []" by auto
  then show ?thesis
    using map_of_cell_loop_at [OF assms] by (simp add: extract_cells_def)
qed

lemma extract_cells_other:
  "k \<notin> set hs \<Longrightarrow> map_of (fst (extract_cells hs cs st)) k = map_of (fst st) k"
proof -
  assume "k \<notin> set hs"
  then have "\<forall>i\<in>set [0..<length cs]. i < length hs \<longrightarrow> hs ! i \<noteq> k"
    by (metis nth_mem)
  then show ?thesis
    by (simp add: extract_cells_def map_of_cell_loop_other)
qed

text \<open>
  Claim C6. Each data cell is paired with the header label at its own index. For a
  cell within the header labels, the labels in use being distinct, the entry under
  its label is the image reference when the cell is the last one of the row,
  whatever its text, and the text, unless empty, when it is not. For the labels
  Price, 1h %, 7d %, the texts $1.23, +0.5% and the empty text, and the image
  chart.png in the last cell, the raw row is Price: $1.23, 1h %: +0.5%,
  7d %: chart.png.
\<close>

theorem extract_cells_pairs_positionally:
  "(idx < length cells \<and> idx < length headers \<and> distinct (take (length cells) headers) \<longrightarrow>
      map_of (fst (extract_cells headers cells (coin_info, lg))) (headers ! idx) =
        (if idx = length cells - 1 then
           (case cell_img (cells ! idx) of
              None \<Rightarrow> map_of coin_info (headers ! idx)
            | Some src \<Rightarrow> Some (attr_val src))
         else if cell_text (cells ! idx) \<noteq> [] then Some (PyStr (cell_text (cells ! idx)))
         else map_of coin_info (headers ! idx))) \<and>
   fst (extract_cells [''Price'', ''1h %'', ''7d %'']
          [\<lparr> cell_text = ''$1.23'', cell_img = None \<rparr>,
           \<lparr> cell_text = ''+0.5%'', cell_img = None \<rparr>,
           \<lparr> cell_text = [], cell_img = Some (Some ''chart.png'') \<rparr>] ([], [])) =
     [(''Price'', PyStr ''$1.23''), (''1h %'', PyStr ''+0.5%''), (''7d %'', PyStr ''chart.png'')]"
proof (intro conjI impI)
  assume a: "idx < length cells \<and> idx < length headers \<and> distinct (take (length cells) headers)"
  then show "map_of (fst (extract_cells headers cells (coin_info, lg))) (headers ! idx) =
        (if idx = length cells - 1 then
           (case cell_img (cells ! idx) of
              None \<Rightarrow> map_of coin_info (headers ! idx)
            | Some src \<Rightarrow> Some (attr_val src))
         else if cell_text (cells ! idx) \<noteq> [] then Some (PyStr (cell_text (cells ! idx)))
         else map_of coin_info (headers ! idx))"
    using extract_cells_at [of idx cells headers "(coin_info, lg)"]
    by (simp add: cell_entry_def split: option.splits)
next
  show "fst (extract_cells [''Price'', ''1h %'', ''7d %'']
          [\<lparr> cell_text = ''$1.23'', cell_img = None \<rparr>,
           \<lparr> cell_text = ''+0.5%'', cell_img = None \<rparr>,
           \<lparr> cell_text = [], cell_img = Some (Some ''chart.png'') \<rparr>] ([], [])) =
     [(''Price'', PyStr ''$1.23''), (''1h %'', PyStr ''+0.5%''), (''7d %'', PyStr ''chart.png'')]"
    by (simp add: extract_cells_def upt_rec try_cell_eq cell_entry_def dict_set_def attr_val_def)
qed

theorem extract_cells_pairs_positionally_witness:
  "map_of (fst (extract_cells [''Price'', ''1h %'', ''7d %'']
          [\<lparr> cell_text = ''$1.23'', cell_img = None \<rparr>,
           \<lparr> cell_text = ''+0.5%'', cell_img = None \<rparr>,
           \<lparr> cell_text = ''n/a'', cell_img = Some (Some ''chart.png'') \<rparr>]
          ([(''rank'', PyInt 1)], []))) ''7d %'' = Some (PyStr ''chart.png'')"
  using extract_cells_pairs_positionally
    [of 2 "[\<lparr> cell_text = ''$1.23'', cell_img = None \<rparr>,
           \<lparr> cell_text = ''+0.5%'', cell_img = None \<rparr>,
           \<lparr> cell_text = ''n/a'', cell_img = Some (Some ''chart.png'') \<rparr>]"
        "[''Price'', ''1h %'', ''7d %'']" "[(''rank'', PyInt 1)]" "[]"]
  by (simp add: attr_val_def)

section \<open>The rank field\<close>

lemma dict_get_extract_cells_other:
  "k \<notin> set hs \<Longrightarrow> dict_get (fst (extract_cells hs cs st)) k = dict_get (fst st) k"
  by (simp add: dict_get_def extract_cells_other)

lemma map_of_set_logo_name_symbol:
  "k \<notin> {''logo'', ''name'', ''symbol''} \<Longrightarrow>
   map_of (set_logo_name_symbol r d) k = map_of d k"
  by (simp add: set_logo_name_symbol_def map_of_dict_set split: option.splits)

lemma raw_row_sync_eq:
  "raw_row_sync hs r =
     fst (extract_cells hs (cell_elements r) (set_logo_name_symbol r (set_rank_sync r []), []))"
  by (simp add: raw_row_sync_def extract_row_sync_def)

lemma raw_row_async_eq:
  "raw_row_async hs r =
     (case set_rank_async r [] of
        Inl e \<Rightarrow> Inl e
      | Inr d \<Rightarrow> Inr (fst (extract_cells hs (cell_elements r) (set_logo_name_symbol r d, []))))"
  by (simp add: raw_row_async_def extract_row_async_def split: sum.splits prod.splits)

lemma py_int_1: "py_int ''1'' = Some 1"
  by (simp add: py_int_def py_strip_def is_space_def py_nat_def digit_val_def)

text \<open>
  Claim C8 fails in the synchronous variant, which stores the text of the rank cell
  as it is: for a rank cell reading 1 the rank of the coin is the string, not the
  number.
\<close>

theorem rank_is_text_in_sync:
  "rank (normalized_coin (raw_row_sync []
     \<lparr> rank_td = Some ''1'', logo_img = None, name_p = None, symbol_p = None,
       cell_elements = [] \<rparr>)) = PyStr ''1''"
  by (simp add: raw_row_sync_eq extract_cells_def set_logo_name_symbol_def set_rank_sync_def
      normalized_coin_def dict_get_dict_set)

text \<open>
  Claim C8, amended. For a row with a rank cell, on a page none of whose header
  labels is \<open>rank\<close>: in the synchronous variant the rank of the coin is the text of
  the cell, a string; in the asynchronous variant it is the integer that \<^verbatim>\<open>int\<close>
  reads from that text, and the row raises \<^verbatim>\<open>ValueError\<close> when \<^verbatim>\<open>int\<close> rejects it.
\<close>

theorem rank_int_async_text_sync:
  assumes "rank_td r = Some t" and "''rank'' \<notin> set headers"
  shows "rank (normalized_coin (raw_row_sync headers r)) = PyStr t \<and>
     (case py_int t of
        None \<Rightarrow> raw_row_async headers r = Inl ValueError
      | Some n \<Rightarrow>
          (\<exists>coin_info. raw_row_async headers r = Inr coin_info \<and>
             rank (normalized_coin coin_info) = PyInt n))"
proof
  show "rank (normalized_coin (raw_row_sync headers r)) = PyStr t"
    using assms
    by (simp add: normalized_coin_def raw_row_sync_eq extract_cells_other
        dict_get_def map_of_set_logo_name_symbol set_rank_sync_def map_of_dict_set)
  show "case py_int t of
        None \<Rightarrow> raw_row_async headers r = Inl ValueError
      | Some n \<Rightarrow>
          (\<exists>coin_info. raw_row_async headers r = Inr coin_info \<and>
             rank (normalized_coin coin_info) = PyInt n)"
    using assms
    by (simp add: normalized_coin_def raw_row_async_eq extract_cells_other
        dict_get_def map_of_set_logo_name_symbol set_rank_async_def map_of_dict_set
        split: option.splits)
qed

theorem rank_int_async_text_sync_witness:
  "rank (normalized_coin (raw_row_sync [''Price'']
     \<lparr> rank_td = Some ''1'', logo_img = None, name_p = None, symbol_p = None,
       cell_elements = [] \<rparr>)) = PyStr ''1'' \<and>
   (\<exists>coin_info. raw_row_async [''Price'']
     \<lparr> rank_td = Some ''1'', logo_img = None, name_p = None, symbol_p = None,
       cell_elements = [] \<rparr> = Inr coin_info \<and> rank (normalized_coin coin_info) = PyInt 1)"
  using rank_int_async_text_sync [of
     "\<lparr> rank_td = Some ''1'', logo_img = None, name_p = None, symbol_p = None,
       cell_elements = [] \<rparr>" "''1''" "[''Price'']"]
  by (simp add: py_int_1)



section \<open>The display strings\<close>

lemma dict_get_try_cell:
  "dict_get (fst (try_cell hs cs idx st)) k =
     (if idx < length hs \<and> hs ! idx = k then
        (case cell_entry cs idx of None \<Rightarrow> dict_get (fst st) k | Some v \<Rightarrow> v)
      else dict_get (fst st) k)"
  by (simp add: dict_get_def map_of_try_cell split: option.splits)

lemma cell_loop_null_or_nonempty:
  "\<forall>i\<in>set idxs. i < length hs \<and> hs ! i = k \<longrightarrow> i \<noteq> length cs - 1 \<Longrightarrow>
   null_or_nonempty (dict_get (fst st) k) \<Longrightarrow>
   null_or_nonempty (dict_get (fst (cell_loop hs cs idxs st)) k)"
proof (induction idxs arbitrary: st)
  case Nil
  then show ?case by simp
next
  case (Cons idx idxs)
  have "null_or_nonempty (dict_get (fst (try_cell hs cs idx st)) k)"
  proof (cases "idx < length hs \<and> hs ! idx = k")
    case False
    with Cons.prems(2) show ?thesis by (auto simp: dict_get_try_cell)
  next
    case True
    with Cons.prems(1) have "idx \<noteq> length cs - 1" by simp
    with True Cons.prems(2) show ?thesis
      by (auto simp: dict_get_try_cell cell_entry_def null_or_nonempty_def
          split: option.splits if_splits)
  qed
  with Cons show ?case by simp
qed

lemma extract_cells_null_or_nonempty:
  assumes "last_label hs r \<noteq> Some k" and "null_or_nonempty (dict_get d k)"
  shows "null_or_nonempty (dict_get (fst (extract_cells hs (cell_elements r) (d, lg))) k)"
proof -
  have "\<forall>i\<in>set [0..<length (cell_elements r)].
          i < length hs \<and> hs ! i = k \<longrightarrow> i \<noteq> length (cell_elements r) - 1"
    using assms(1) by (auto simp: last_label_def Let_def split: if_splits)
  from cell_loop_null_or_nonempty [OF this, of "(d, lg)"] assms(2)
  show ?thesis by (simp add: extract_cells_def)
qed

lemma head_sync_no_label:
  "k \<notin> {''rank'', ''logo'', ''name'', ''symbol''} \<Longrightarrow>
   dict_get (set_logo_name_symbol r (set_rank_sync r [])) k = PyNone"
  by (simp add: dict_get_def map_of_set_logo_name_symbol set_rank_sync_def map_of_dict_set
      split: option.splits)

lemma head_async_no_label:
  "k \<notin> {''rank'', ''logo'', ''name'', ''symbol''} \<Longrightarrow> set_rank_async r [] = Inr d \<Longrightarrow>
   dict_get (set_logo_name_symbol r d) k = PyNone"
  by (auto simp: dict_get_def map_of_set_logo_name_symbol set_rank_async_def map_of_dict_set
      split: option.splits)

lemma raw_row_null_or_nonempty:
  assumes "k \<notin> {''rank'', ''logo'', ''name'', ''symbol''}" and "last_label hs r \<noteq> Some k"
  shows "null_or_nonempty (dict_get (raw_row_sync hs r) k)"
    and "raw_row_async hs r = Inr ci \<Longrightarrow> null_or_nonempty (dict_get ci k)"
proof -
  show "null_or_nonempty (dict_get (raw_row_sync hs r) k)"
    unfolding raw_row_sync_eq
    by (rule extract_cells_null_or_nonempty [OF assms(2)])
       (simp add: head_sync_no_label [OF assms(1)] null_or_nonempty_def)
  assume a: "raw_row_async hs r = Inr ci"
  then obtain d where d: "set_rank_async r [] = Inr d"
    and ci: "ci = fst (extract_cells hs (cell_elements r) (set_logo_name_symbol r d, []))"
    by (auto simp: raw_row_async_eq split: sum.splits)
  show "null_or_nonempty (dict_get ci k)"
    unfolding ci
    by (rule extract_cells_null_or_nonempty [OF assms(2)])
       (simp add: head_async_no_label [OF assms(1) d] null_or_nonempty_def)
qed

text \<open>
  Claim C9 fails for the field that the last cell of a row is stored under: it holds
  the image reference of that cell, which can be the empty string. A row with a
  single data cell under the label Price, holding an image with an empty \<^verbatim>\<open>src\<close>,
  gets the empty string as its price.
\<close>

theorem price_empty_from_last_cell:
  "price (normalized_coin (raw_row_sync [''Price'']
     \<lparr> rank_td = Some ''1'', logo_img = None, name_p = None, symbol_p = None,
       cell_elements = [\<lparr> cell_text = [], cell_img = Some (Some []) \<rparr>] \<rparr>)) = PyStr []"
  by (simp add: raw_row_sync_eq extract_cells_def try_cell_eq cell_entry_def attr_val_def
      normalized_coin_def dict_get_dict_set)

text \<open>
  Claim C9, amended. Every canonical string field whose column label is not the one
  that the last cell of the row is stored under is \<^verbatim>\<open>None\<close> or a non-empty string,
  in both variants: a cell other than the last one stores its text only when the
  text is not empty.
\<close>

theorem string_fields_null_or_nonempty:
  assumes "(label, field) \<in> set string_fields" and "last_label headers r \<noteq> Some label"
  shows "null_or_nonempty (field (normalized_coin (raw_row_sync headers r))) \<and>
     (\<forall>coin_info. raw_row_async headers r = Inr coin_info \<longrightarrow>
        null_or_nonempty (field (normalized_coin coin_info)))"
proof -
  from assms(1) have k: "label \<notin> {''rank'', ''logo'', ''name'', ''symbol''}"
    by (auto simp: string_fields_def)
  from assms(1) have f: "field (normalized_coin d) = dict_get d label" for d
    by (auto simp: string_fields_def normalized_coin_def)
  show ?thesis
    using raw_row_null_or_nonempty [OF k assms(2)] by (simp add: f)
qed

theorem string_fields_null_or_nonempty_witness:
  "last_label [''Price'', ''Last 7 Days'']
     \<lparr> rank_td = Some ''1'', logo_img = None, name_p = None, symbol_p = None,
       cell_elements = [\<lparr> cell_text = ''$1.23'', cell_img = None \<rparr>,
                        \<lparr> cell_text = [], cell_img = Some (Some []) \<rparr>] \<rparr> = Some ''Last 7 Days'' \<and>
   null_or_nonempty (price (normalized_coin (raw_row_sync [''Price'', ''Last 7 Days'']
     \<lparr> rank_td = Some ''1'', logo_img = None, name_p = None, symbol_p = None,
       cell_elements = [\<lparr> cell_text = ''$1.23'', cell_img = None \<rparr>,
                        \<lparr> cell_text = [], cell_img = Some (Some []) \<rparr>] \<rparr>)))"
  using string_fields_null_or_nonempty [of "''Price''" price "[''Price'', ''Last 7 Days'']"
     "\<lparr> rank_td = Some ''1'', logo_img = None, name_p = None, symbol_p = None,
       cell_elements = [\<lparr> cell_text = ''$1.23'', cell_img = None \<rparr>,
                        \<lparr> cell_text = [], cell_img = Some (Some []) \<rparr>] \<rparr>"]
  by (simp add: string_fields_def last_label_def)

section \<open>Failing cells\<close>

lemma extract_row_sync_eq:
  "extract_row_sync hs r lg = (raw_row_sync hs r, lg @ cell_errors hs r)"
  using extract_cells_log [of hs "cell_elements r" _ lg]
    extract_cells_log [of hs "cell_elements r" _ "[]"]
  by (simp add: extract_row_sync_def raw_row_sync_def cell_errors_def)

lemma extract_row_async_eq:
  "extract_row_async hs r lg =
     (case raw_row_async hs r of
        Inl e \<Rightarrow> Inl e
      | Inr ci \<Rightarrow> Inr (ci, lg @ cell_errors hs r))"
proof (cases "set_rank_async r []")
  case (Inl e)
  then show ?thesis
    by (simp add: extract_row_async_def raw_row_async_def)
next
  case (Inr d)
  obtain a b where ab: "extract_cells hs (cell_elements r) (set_logo_name_symbol r d, []) = (a, b)"
    by (cases "extract_cells hs (cell_elements r) (set_logo_name_symbol r d, [])")
  have "extract_cells hs (cell_elements r) (set_logo_name_symbol r d, lg) =
          (a, lg @ cell_errors hs r)"
    using extract_cells_log [of hs "cell_elements r" "set_logo_name_symbol r d" lg] ab
    by (simp add: cell_errors_def)
  with Inr ab show ?thesis
    by (simp add: extract_row_async_def raw_row_async_def)
qed

lemma rank_converts_Inr:
  "rank_converts r \<Longrightarrow> raw_row_async hs r = Inr (projr (raw_row_async hs r))"
  by (auto simp: rank_converts_def raw_row_async_eq set_rank_async_def split: option.splits)

lemma scrape_sync_eq:
  "scrape_sync hs rows (coins, lg) =
     (coins @ map normalized_coin (filter (\<lambda>d. d \<noteq> []) (map (raw_row_sync hs) rows)),
      lg @ concat (map (cell_errors hs) rows))"
  by (induction rows arbitrary: coins lg) (simp_all add: extract_row_sync_eq)

lemma collect_apply: "collect c (coins, lg) = Inr (coins @ [c], lg)"
  by (simp add: collect_def)

lemma generate_collect_eq:
  "\<forall>r\<in>set rows. rank_converts r \<Longrightarrow>
   generate_async collect hs rows (coins, lg) =
     (None,
      coins @ map normalized_coin
        (filter (\<lambda>d. d \<noteq> []) (map (\<lambda>r. projr (raw_row_async hs r)) rows)),
      lg @ concat (map (cell_errors hs) rows))"
proof (induction rows arbitrary: coins lg)
  case Nil
  show ?case by simp
next
  case (Cons r rows)
  from Cons.prems have "rank_converts r" by simp
  then obtain ci where r: "raw_row_async hs r = Inr ci"
    using rank_converts_Inr by blast
  from Cons.prems have rest: "\<forall>r\<in>set rows. rank_converts r" by simp
  have e: "extract_row_async hs r lg = Inr (ci, lg @ cell_errors hs r)"
    by (simp add: extract_row_async_eq r)
  show ?case
    by (simp add: e r collect_apply Cons.IH [OF rest])
qed

text \<open>
  Claim C3 fails for the rank cell of the asynchronous variant. Its text is converted
  outside the \<^verbatim>\<open>try\<close> block of the cells; a text that \<^verbatim>\<open>int\<close> rejects, here an
  empty rank cell in the first of two rows, is caught by the handler around the row
  loop, which ends the extraction of the page: neither row yields a coin. The
  synchronous variant makes two coins of the same rows.
\<close>

theorem bad_rank_ends_page_async:
  "scrape_async [''Price'', ''Last 7 Days''] [coin_row [] ''$1.00'', coin_row ''2'' ''$2.00''] =
     ([], [LogPageError ValueError]) \<and>
   length (fst (scrape_sync [''Price'', ''Last 7 Days'']
      [coin_row [] ''$1.00'', coin_row ''2'' ''$2.00''] ([], []))) = 2"
  by (simp add: scrape_async_def scrape_sync_eq extract_row_async_def set_rank_async_def
      coin_row_def py_int_def py_strip_def raw_row_sync_eq set_rank_sync_def
      set_logo_name_symbol_def extract_cells_def dict_set_def try_cell_eq cell_entry_def
      attr_val_def)

text \<open>
  Claim C3, amended. A data cell that fails (a cell beyond the header labels) leaves
  the raw row as it is and adds one entry to the log. In the synchronous variant
  every row is extracted whatever cells fail: the coins are those of the rows with a
  non-empty raw row, in order, and the log has one entry for each failing cell. The
  same holds in the asynchronous variant for a page on which \<^verbatim>\<open>int\<close> accepts the
  text of every rank cell.
\<close>

theorem cell_failure_is_local:
  "(length headers \<le> idx \<longrightarrow>
      try_cell headers cells idx (coin_info, lg) = (coin_info, lg @ [LogCellError IndexError])) \<and>
   scrape_sync headers rows (coins, lg) =
     (coins @ map normalized_coin
        (filter (\<lambda>d. d \<noteq> []) (map (raw_row_sync headers) rows)),
      lg @ concat (map (cell_errors headers) rows)) \<and>
   ((\<forall>r\<in>set rows. rank_converts r) \<longrightarrow>
      scrape_async headers rows =
        (map normalized_coin
           (filter (\<lambda>d. d \<noteq> []) (map (\<lambda>r. projr (raw_row_async headers r)) rows)),
         concat (map (cell_errors headers) rows)))"
  by (simp add: try_cell_eq scrape_sync_eq scrape_async_def generate_collect_eq)


theorem cell_failure_is_local_witness:
  "try_cell [''Price''] (cell_elements (coin_row ''1'' ''$1.00'')) 1 ([], []) =
     ([], [LogCellError IndexError]) \<and>
   scrape_sync [''Price''] [coin_row ''1'' ''$1.00'', coin_row ''2'' ''$2.00''] ([], []) =
     ([normalized_coin [(''rank'', PyStr ''1''), (''Price'', PyStr ''$1.00'')],
       normalized_coin [(''rank'', PyStr ''2''), (''Price'', PyStr ''$2.00'')]],
      [LogCellError IndexError, LogCellError IndexError]) \<and>
   scrape_async [''Price''] [coin_row ''1'' ''$1.00'', coin_row ''2'' ''$2.00''] =
     ([normalized_coin [(''rank'', PyInt 1), (''Price'', PyStr ''$1.00'')],
       normalized_coin [(''rank'', PyInt 2), (''Price'', PyStr ''$2.00'')]],
      [LogCellError IndexError, LogCellError IndexError])"
proof -
  have 2: "py_int ''2'' = Some 2"
    by (simp add: py_int_def py_strip_def is_space_def py_nat_def digit_val_def)
  have conv: "\<forall>r\<in>set [coin_row ''1'' ''$1.00'', coin_row ''2'' ''$2.00'']. rank_converts r"
    by (simp add: rank_converts_def coin_row_def py_int_1 2)
  show ?thesis
    using cell_failure_is_local [of "[''Price'']" 1 "cell_elements (coin_row ''1'' ''$1.00'')"
        "[]" "[]" "[coin_row ''1'' ''$1.00'', coin_row ''2'' ''$2.00'']" "[]"] conv
    by (simp add: raw_row_sync_eq raw_row_async_eq set_rank_sync_def set_rank_async_def
        set_logo_name_symbol_def coin_row_def extract_cells_def try_cell_eq cell_entry_def
        cell_errors_def dict_set_def py_int_1 2)
qed


section \<open>Persistence\<close>

lemma insert_all_eq:
  "working d = durable d \<Longrightarrow>
   insert_all accepts d coins =
     (if list_all accepts coins then None else Some StorageError,
      \<lparr> durable = durable d @ takeWhile accepts coins,
        working = durable d @ takeWhile accepts coins \<rparr>)"
proof (induction coins arbitrary: d)
  case Nil
  then show ?case by (cases d) simp
next
  case (Cons c coins)
  show ?case
  proof (cases "accepts c")
    case False
    with Cons.prems show ?thesis by (cases d) (simp add: insert_coin_eq)
  next
    case True
    let ?d = "\<lparr> durable = working d @ [c], working = working d @ [c] \<rparr>"
    have "working ?d = durable ?d" by simp
    from Cons.IH [OF this] True Cons.prems show ?thesis
      by (simp add: insert_coin_eq)
  qed
qed

lemma generate_collect_prefix:
  "fst (snd (generate_async collect hs rows (coins, lg))) =
     coins @ fst (snd (generate_async collect hs rows ([], [])))"
proof (induction rows arbitrary: coins lg)
  case Nil
  show ?case by simp
next
  case (Cons r rows)
  show ?case
  proof (cases "raw_row_async hs r")
    case (Inl e)
    then show ?thesis by (simp add: extract_row_async_eq)
  next
    case (Inr ci)
    show ?thesis
      using Cons.IH [of "coins @ [normalized_coin ci]" "lg @ cell_errors hs r"]
        Cons.IH [of "[normalized_coin ci]" "cell_errors hs r"]
        Cons.IH [of coins "lg @ cell_errors hs r"]
        Cons.IH [of "[]" "cell_errors hs r"]
      by (simp add: extract_row_async_eq Inr collect_apply)
  qed
qed

lemma scrape_async_Cons:
  "fst (scrape_async hs (r # rows)) =
     (case raw_row_async hs r of
        Inl e \<Rightarrow> []
      | Inr ci \<Rightarrow> (if ci \<noteq> [] then [normalized_coin ci] else []) @ fst (scrape_async hs rows))"
proof (cases "raw_row_async hs r")
  case (Inl e)
  then show ?thesis by (simp add: scrape_async_def extract_row_async_eq)
next
  case (Inr ci)
  show ?thesis
    using generate_collect_prefix [of hs rows "[normalized_coin ci]" "cell_errors hs r"]
      generate_collect_prefix [of hs rows "[]" "cell_errors hs r"]
    by (simp add: scrape_async_def extract_row_async_eq Inr collect_apply)
qed

lemma insert_yielded_eq:
  "insert_yielded accepts c (d, lg) =
     (if accepts c then Inr (\<lparr> durable = working d @ [c], working = working d @ [c] \<rparr>, lg)
      else Inl StorageError)"
  by (simp add: insert_yielded_def insert_coin_eq)

lemma generate_insert_eq:
  "working d = durable d \<Longrightarrow>
   \<exists>lg'. generate_async (insert_yielded accepts) hs rows (d, lg) =
     (if list_all accepts (fst (scrape_async hs rows)) then None else Some StorageError,
      \<lparr> durable = durable d @ takeWhile accepts (fst (scrape_async hs rows)),
        working = durable d @ takeWhile accepts (fst (scrape_async hs rows)) \<rparr>,
      lg')"
proof (induction rows arbitrary: d lg)
  case Nil
  then show ?case by (cases d) (simp add: scrape_async_def)
next
  case (Cons r rows)
  show ?case
  proof (cases "raw_row_async hs r")
    case (Inl e)
    with Cons.prems show ?thesis
      by (cases d) (simp add: scrape_async_Cons extract_row_async_eq)
  next
    case (Inr ci)
    show ?thesis
    proof (cases "ci = []")
      case True
      with Inr Cons.IH [OF Cons.prems, of "lg @ cell_errors hs r"] show ?thesis
        by (simp add: scrape_async_Cons extract_row_async_eq)
    next
      case False
      show ?thesis
      proof (cases "accepts (normalized_coin ci)")
        case no: False
        with Inr False Cons.prems show ?thesis
          by (cases d) (simp add: scrape_async_Cons extract_row_async_eq insert_yielded_eq)
      next
        case True
        let ?d = "\<lparr> durable = working d @ [normalized_coin ci],
                    working = working d @ [normalized_coin ci] \<rparr>"
        have "working ?d = durable ?d" by simp
        from Cons.IH [OF this, of "lg @ cell_errors hs r"] Inr False True Cons.prems
        show ?thesis
          by (simp add: scrape_async_Cons extract_row_async_eq insert_yielded_eq)
      qed
    qed
  qed
qed

lemma takeWhile_prefix:
  "list_all P pre \<Longrightarrow> \<not> P c \<Longrightarrow> takeWhile P (pre @ c # post) = pre"
  by (induction pre) simp_all

lemma list_all_prefix:
  "\<not> P c \<Longrightarrow> list_all P (pre @ c # post) = False"
  by simp

lemma scroll_stable_10: "scroll_loop 10 (\<lambda>i. (1000, 1000)) 0 0 = Some 10"
  by (simp add: scroll_loop.simps)

lemma scroll_stable_20: "scroll_loop 20 (\<lambda>i. (1000, 1000)) 0 0 = Some 20"
  by (simp add: scroll_loop.simps)

lemma render_stable:
  "render 10 (stable_page rows) =
     Some (Inr \<lparr> doc_headers = [''Price'', ''Last 7 Days''], doc_rows = rows \<rparr>)"
  "render 20 (stable_page rows) =
     Some (Inr \<lparr> doc_headers = [''Price'', ''Last 7 Days''], doc_rows = rows \<rparr>)"
  by (simp_all add: render_def stable_page_def scroll_stable_10 scroll_stable_20)

lemma raw_row_sync_coin_row:
  "pr \<noteq> [] \<Longrightarrow>
   raw_row_sync [''Price'', ''Last 7 Days''] (coin_row rk pr) =
     [(''rank'', PyStr rk), (''Price'', PyStr pr), (''Last 7 Days'', PyStr ''chart.svg'')]"
  by (simp add: raw_row_sync_eq coin_row_def set_rank_sync_def set_logo_name_symbol_def
      extract_cells_def try_cell_eq cell_entry_def dict_set_def attr_val_def)

lemma raw_row_async_coin_row:
  "pr \<noteq> [] \<Longrightarrow> py_int rk = Some n \<Longrightarrow>
   raw_row_async [''Price'', ''Last 7 Days''] (coin_row rk pr) =
     Inr [(''rank'', PyInt n), (''Price'', PyStr pr), (''Last 7 Days'', PyStr ''chart.svg'')]"
  by (simp add: raw_row_async_eq coin_row_def set_rank_async_def set_logo_name_symbol_def
      extract_cells_def try_cell_eq cell_entry_def dict_set_def attr_val_def)

lemma py_int_2: "py_int ''2'' = Some 2"
  by (simp add: py_int_def py_strip_def is_space_def py_nat_def digit_val_def)

lemma py_int_3: "py_int ''3'' = Some 3"
  by (simp add: py_int_def py_strip_def is_space_def py_nat_def digit_val_def)

lemma cell_errors_coin_row: "cell_errors [''Price'', ''Last 7 Days''] (coin_row rk pr) = []"
  by (simp add: cell_errors_def coin_row_def)

lemma process_page_sync_fails:
  assumes "coinmarketcap_sync p lg = Some (Inr (pre @ c # post, lg'))"
    and "list_all accepts pre" and "\<not> accepts c"
  shows "process_page_sync accepts stored p lg = Some (Some StorageError, stored @ pre, lg')"
  using assms
  by (simp add: process_page_sync_def Let_def insert_all_eq db_connect_def db_close_def
      takeWhile_prefix)

lemma process_page_async_fails:
  assumes "working d = durable d" and "render 20 p = Some (Inr doc)"
    and "fst (scrape_async (doc_headers doc) (doc_rows doc)) = pre @ c # post"
    and "list_all accepts pre" and "\<not> accepts c"
  shows "\<exists>d' lg'. process_page_async accepts d p lg = Some (Some StorageError, d', lg') \<and>
           durable d' = durable d @ pre"
proof -
  from generate_insert_eq [OF assms(1), of accepts "doc_headers doc" "doc_rows doc" lg]
  obtain lg' where "generate_async (insert_yielded accepts) (doc_headers doc) (doc_rows doc) (d, lg) =
     (Some StorageError, \<lparr> durable = durable d @ pre, working = durable d @ pre \<rparr>, lg')"
    using assms(3-5) by (auto simp: takeWhile_prefix)
  with assms(2) show ?thesis
    by (simp add: process_page_async_def)
qed

lemma coinmarketcap_sync_three:
  "coinmarketcap_sync
     (stable_page [coin_row ''1'' ''$1.00'', coin_row ''2'' ''$2.00'', coin_row ''3'' ''$3.00''])
     [] =
   Some (Inr
     ([normalized_coin
         [(''rank'', PyStr ''1''), (''Price'', PyStr ''$1.00''),
          (''Last 7 Days'', PyStr ''chart.svg'')]] @
      normalized_coin
         [(''rank'', PyStr ''2''), (''Price'', PyStr ''$2.00''),
          (''Last 7 Days'', PyStr ''chart.svg'')] #
      [normalized_coin
         [(''rank'', PyStr ''3''), (''Price'', PyStr ''$3.00''),
          (''Last 7 Days'', PyStr ''chart.svg'')]], []))"
  by (simp add: coinmarketcap_sync_def render_stable scrape_sync_eq raw_row_sync_coin_row
      cell_errors_coin_row)

lemma scrape_async_three:
  "fst (scrape_async [''Price'', ''Last 7 Days'']
     [coin_row ''1'' ''$1.00'', coin_row ''2'' ''$2.00'', coin_row ''3'' ''$3.00'']) =
     [normalized_coin
         [(''rank'', PyInt 1), (''Price'', PyStr ''$1.00''),
          (''Last 7 Days'', PyStr ''chart.svg'')]] @
      normalized_coin
         [(''rank'', PyInt 2), (''Price'', PyStr ''$2.00''),
          (''Last 7 Days'', PyStr ''chart.svg'')] #
      [normalized_coin
         [(''rank'', PyInt 3), (''Price'', PyStr ''$3.00''),
          (''Last 7 Days'', PyStr ''chart.svg'')]]"
  by (simp add: scrape_async_def extract_row_async_eq raw_row_async_coin_row collect_apply
      cell_errors_coin_row py_int_1 py_int_2 py_int_3)

text \<open>
  Claim C10. Each record is inserted and committed on its own: an accepted insert
  leaves the new row committed. When the storage engine rejects a record of a page
  after having accepted the records before it, the page's task ends with the storage
  error and the records before it stay in the database, in both variants.
\<close>

theorem upserts_before_failure_persist:
  "(accepts c \<longrightarrow>
      insert_coin accepts d c =
        Inr \<lparr> durable = working d @ [c], working = working d @ [c] \<rparr>) \<and>
   (coinmarketcap_sync p lg = Some (Inr (pre @ c # post, lg')) \<and>
    list_all accepts pre \<and> \<not> accepts c \<longrightarrow>
      process_page_sync accepts stored p lg = Some (Some StorageError, stored @ pre, lg')) \<and>
   (working d = durable d \<and> render 20 p = Some (Inr doc) \<and>
    fst (scrape_async (doc_headers doc) (doc_rows doc)) = pre @ c # post \<and>
    list_all accepts pre \<and> \<not> accepts c \<longrightarrow>
      (\<exists>d' lg'. process_page_async accepts d p lg = Some (Some StorageError, d', lg') \<and>
         durable d' = durable d @ pre))"
  using process_page_sync_fails [of p lg pre c post lg' accepts stored]
    process_page_async_fails [of d p doc pre c post accepts lg]
  by (simp add: insert_coin_eq)

theorem upserts_before_failure_persist_witness:
  "process_page_sync (\<lambda>c. rank c \<noteq> PyStr ''2'') []
     (stable_page [coin_row ''1'' ''$1.00'', coin_row ''2'' ''$2.00'', coin_row ''3'' ''$3.00''])
     [] =
   Some (Some StorageError,
     [normalized_coin
        [(''rank'', PyStr ''1''), (''Price'', PyStr ''$1.00''),
         (''Last 7 Days'', PyStr ''chart.svg'')]], []) \<and>
   (\<exists>d' lg'.
      process_page_async (\<lambda>c. rank c \<noteq> PyInt 2) (db_connect [])
        (stable_page [coin_row ''1'' ''$1.00'', coin_row ''2'' ''$2.00'', coin_row ''3'' ''$3.00''])
        [] = Some (Some StorageError, d', lg') \<and>
      durable d' =
        [normalized_coin
           [(''rank'', PyInt 1), (''Price'', PyStr ''$1.00''),
            (''Last 7 Days'', PyStr ''chart.svg'')]])"
proof
  let ?p = "stable_page
    [coin_row ''1'' ''$1.00'', coin_row ''2'' ''$2.00'', coin_row ''3'' ''$3.00'']"
  let ?s = "\<lambda>k pr. normalized_coin
    [(''rank'', PyStr k), (''Price'', PyStr pr), (''Last 7 Days'', PyStr ''chart.svg'')]"
  let ?a = "\<lambda>n pr. normalized_coin
    [(''rank'', PyInt n), (''Price'', PyStr pr), (''Last 7 Days'', PyStr ''chart.svg'')]"
  have s1: "list_all (\<lambda>c. rank c \<noteq> PyStr ''2'') [?s ''1'' ''$1.00'']"
    and s2: "\<not> rank (?s ''2'' ''$2.00'') \<noteq> PyStr ''2''"
    by (simp_all add: normalized_coin_def dict_get_def)
  show "process_page_sync (\<lambda>c. rank c \<noteq> PyStr ''2'') [] ?p [] =
     Some (Some StorageError, [?s ''1'' ''$1.00''], [])"
    using upserts_before_failure_persist
      [where accepts = "\<lambda>c. rank c \<noteq> PyStr ''2''" and p = ?p and lg = "[]"
         and pre = "[?s ''1'' ''$1.00'']" and c = "?s ''2'' ''$2.00''" and post = "[?s ''3'' ''$3.00'']" and lg' = "[]"
         and stored = "[]"]
      coinmarketcap_sync_three s1 s2
    by simp
  have a1: "list_all (\<lambda>c. rank c \<noteq> PyInt 2) [?a 1 ''$1.00'']"
    and a2: "\<not> rank (?a 2 ''$2.00'') \<noteq> PyInt 2"
    by (simp_all add: normalized_coin_def dict_get_def)
  show "\<exists>d' lg'. process_page_async (\<lambda>c. rank c \<noteq> PyInt 2) (db_connect []) ?p [] =
       Some (Some StorageError, d', lg') \<and> durable d' = [?a 1 ''$1.00'']"
    using upserts_before_failure_persist
      [where accepts = "\<lambda>c. rank c \<noteq> PyInt 2" and p = ?p and lg = "[]"
         and pre = "[?a 1 ''$1.00'']" and c = "?a 2 ''$2.00''" and post = "[?a 3 ''$3.00'']"
         and d = "db_connect []"
         and doc = "\<lparr> doc_headers = [''Price'', ''Last 7 Days''],
              doc_rows = [coin_row ''1'' ''$1.00'', coin_row ''2'' ''$2.00'',
                          coin_row ''3'' ''$3.00''] \<rparr>"]
      render_stable(2) scrape_async_three a1 a2
    by (simp add: db_connect_def)
qed

section \<open>Navigation failures\<close>




subsection \<open>Tasks of a batch\<close>













lemma run_task_Done: "run_task accepts n Done st = (Done, st)"
  by (induction n) simp_all

lemma run_task_Failed: "run_task accepts n (Failed e) st = (Failed e, st)"
  by (induction n) simp_all

lemma run_task_add:
  "run_task accepts (m + n) t st =
     (case run_task accepts m t st of (t', st') \<Rightarrow> run_task accepts n t' st')"
  by (induction m arbitrary: t st) (simp_all split: prod.splits)

lemma run_task_rows:
  "run_task accepts (Suc (length rows)) (Rows hs rows) (d, lg) =
     (case generate_async (insert_yielded accepts) hs rows (d, lg) of
        (None, st') \<Rightarrow> (Done, st')
      | (Some e, st') \<Rightarrow> (Failed e, st'))"
proof (induction rows arbitrary: d lg)
  case Nil
  show ?case by simp
next
  case (Cons r rows)
  show ?case
  proof (cases "extract_row_async hs r lg")
    case (Inl e)
    then show ?thesis by (simp add: run_task_Done)
  next
    case (Inr x)
    obtain ci lg1 where x: "x = (ci, lg1)" by (cases x)
    show ?thesis
    proof (cases "ci = []")
      case True
      with Inr x Cons.IH [of d lg1] show ?thesis by simp
    next
      case False
      show ?thesis
      proof (cases "insert_yielded accepts (normalized_coin ci) (d, lg1)")
        case (Inl e)
        with Inr x False show ?thesis by (simp add: run_task_Failed)
      next
        case r: (Inr st1)
        obtain d1 lg2 where st1: "st1 = (d1, lg2)" by (cases st1)
        from Inr x False r st1 Cons.IH [of d1 lg2] show ?thesis by simp
      qed
    qed
  qed
qed

lemma run_task_scroll:
  assumes "scroll_loop T h i c = Some n"
  shows "T = 20 \<longrightarrow> h = heights p \<longrightarrow>
         i \<le> n \<and>
         run_task accepts (Suc (n - i)) (Scroll p i c) st =
           (Rows (doc_headers (content p n)) (doc_rows (content p n)), st)"
proof (induction rule: scroll_loop.raw_induct [OF _ assms])
  case (1 f T h i c n)
  show ?case
  proof (intro impI)
    assume T: "T = 20" and h: "h = heights p"
    show "i \<le> n \<and>
         run_task accepts (Suc (n - i)) (Scroll p i c) st =
           (Rows (doc_headers (content p n)) (doc_rows (content p n)), st)"
    proof (cases "c < 20")
      case False
      with 1(2) T have "n = i" by simp
      with False show ?thesis by simp
    next
      case True
      obtain a b where ab: "heights p i = (a, b)" by (cases "heights p i")
      let ?c = "if a = b then c + 1 else 0"
      from True 1(2) T h ab have "f T h (i + 1) ?c = Some n"
        by (simp split: if_splits)
      from 1(1) [OF this] T h
      have le: "i + 1 \<le> n"
        and run: "run_task accepts (Suc (n - (i + 1))) (Scroll p (i + 1) ?c) st =
           (Rows (doc_headers (content p n)) (doc_rows (content p n)), st)"
        by simp_all
      from le have eq: "Suc (n - i) = Suc (Suc (n - (i + 1)))" by simp
      have step: "task_step accepts (Scroll p i c) st = (Scroll p (i + 1) ?c, st)"
        using True ab by simp
      have "run_task accepts (Suc (n - i)) (Scroll p i c) st =
              run_task accepts (Suc (n - (i + 1))) (Scroll p (i + 1) ?c) st"
        unfolding eq by (subst run_task.simps(2)) (simp only: step prod.case)
      with run le show ?thesis by simp
    qed
  qed
qed

lemma run_task_process_page:
  assumes "process_page_async accepts d p lg = Some (err, d', lg')"
  shows "\<exists>n. run_task accepts n (Start p) (d, lg) =
           (case err of None \<Rightarrow> Done | Some e \<Rightarrow> Failed e, d', lg')"
proof (cases "goto_fails p")
  case True
  with assms have "err = Some NavigationError" "d' = d" "lg' = lg"
    by (simp_all add: process_page_async_def render_def)
  with True have "run_task accepts 1 (Start p) (d, lg) =
           (case err of None \<Rightarrow> Done | Some e \<Rightarrow> Failed e, d', lg')"
    by simp
  then show ?thesis ..
next
  case False
  with assms obtain n where n: "scroll_loop 20 (heights p) 0 0 = Some n"
    and gen: "generate_async (insert_yielded accepts) (doc_headers (content p n))
                (doc_rows (content p n)) (d, lg) = (err, d', lg')"
    by (auto simp: process_page_async_def render_def split: option.splits)
  let ?hs = "doc_headers (content p n)" and ?rows = "doc_rows (content p n)"
  from run_task_scroll [OF n, of p accepts "(d, lg)"]
  have scroll: "run_task accepts (Suc n) (Scroll p 0 0) (d, lg) = (Rows ?hs ?rows, d, lg)"
    by simp
  have start: "run_task accepts (Suc (Suc n)) (Start p) (d, lg) = (Rows ?hs ?rows, d, lg)"
    using False scroll by (subst run_task.simps(2)) (simp del: run_task.simps)
  have rows: "run_task accepts (Suc (length ?rows)) (Rows ?hs ?rows) (d, lg) =
           (case err of None \<Rightarrow> Done | Some e \<Rightarrow> Failed e, d', lg')"
    by (simp only: run_task_rows gen) (simp split: option.splits)
  have "run_task accepts (Suc (Suc n) + Suc (length ?rows)) (Start p) (d, lg) =
           (case err of None \<Rightarrow> Done | Some e \<Rightarrow> Failed e, d', lg')"
    by (simp only: run_task_add start prod.case rows)
  then show ?thesis ..
qed









end
